theory Spec2Isabelle
  imports Main "HOL-Library.Word" "HOL-Library.AList"
begin

unbundle bit_operations_syntax

section \<open>Bytes\<close>

text \<open>
  A Python \<^verbatim>\<open>bytes\<close> or \<^verbatim>\<open>bytearray\<close> object is a list of 8-bit words.
  Python integers are unbounded and are modelled by \<^typ>\<open>int\<close>.
\<close>

type_synonym byte = "8 word"
type_synonym bytes = "byte list"

section \<open>Checksum: \<^verbatim>\<open>CRC16\<close> of \<^verbatim>\<open>rctclient/utils.py\<close>\<close>

text \<open>
  The body of the inner loop \<^verbatim>\<open>for bit in range(8)\<close>: shift the accumulator left by one
  bit and, when the test \<^verbatim>\<open>crcsum & 0x7FFF0000\<close> is non-zero, mask it to 16 bits and XOR
  the polynomial into it.
\<close>

definition crc_shift :: "int \<Rightarrow> int" where
  "crc_shift crcsum =
     (let crcsum = push_bit 1 crcsum
      in if crcsum AND 0x7FFF0000 \<noteq> 0 then (crcsum AND 0x0000FFFF) XOR 0x1021 else crcsum)"

text \<open>The inner loop, run \<open>n\<close> times (the source runs it 8 times).\<close>

fun crc_bits :: "nat \<Rightarrow> int \<Rightarrow> int" where
  "crc_bits 0 crcsum = crcsum"
| "crc_bits (Suc n) crcsum = crc_bits n (crc_shift crcsum)"

text \<open>The outer loop \<^verbatim>\<open>for byte in buffer\<close>.\<close>

fun crc_bytes :: "bytes \<Rightarrow> int \<Rightarrow> int" where
  "crc_bytes [] crcsum = crcsum"
| "crc_bytes (byte # buffer) crcsum = crc_bytes buffer (crc_bits 8 (crcsum XOR push_bit 8 (uint byte)))"

text \<open>
  The function itself: the buffer is a copy of the data, with one zero byte appended when
  \<^verbatim>\<open>len(data) & 0x01\<close> is non-zero, and the accumulator starts at \<^verbatim>\<open>0xFFFF\<close>. The
  accumulator is returned as it is.
\<close>

definition CRC16 :: "bytes \<Rightarrow> int" where
  "CRC16 data =
     (let buffer = (if int (length data) AND 0x01 \<noteq> 0 then data @ [0] else data)
      in crc_bytes buffer 0xFFFF)"

subsection \<open>The reference algorithm, as the specification words it\<close>

text \<open>
  The specification's algorithm, written from its own words and independently of the
  source: after the shift, the test is whether any bit at or above position 16 is set,
  the mask keeps the low 16 bits, and the result is the low 16 bits of the accumulator.
\<close>

definition ref_shift :: "int \<Rightarrow> int" where
  "ref_shift acc =
     (let acc = push_bit 1 acc
      in if drop_bit 16 acc \<noteq> 0 then take_bit 16 acc XOR 0x1021 else acc)"

definition ref_byte :: "int \<Rightarrow> byte \<Rightarrow> int" where
  "ref_byte acc b = (ref_shift ^^ 8) (acc XOR push_bit 8 (uint b))"

definition checksum_ref :: "bytes \<Rightarrow> int" where
  "checksum_ref buffer = take_bit 16 (foldl ref_byte 0xFFFF buffer)"

section \<open>Python values and the \<^verbatim>\<open>struct\<close> module\<close>

text \<open>
  The exceptions the two codec functions can end with. \<^verbatim>\<open>struct.error\<close> is
  \<open>StructError\<close>; a failed \<^verbatim>\<open>assert\<close> is \<open>AssertionError\<close> (assertions are taken
  as enabled, the interpreter's default).
\<close>

datatype error =
  StructError | ValueError | KeyError | AssertionError | UnicodeDecodeError | OverflowError

text \<open>
  Modelled from the spec: the enumeration \<^verbatim>\<open>DataType\<close> of \<^verbatim>\<open>rctclient/types.py\<close>, which
  is not among the sources. The specification lists its twelve tags; \<open>UNKNOWN\<close> stands
  for any other tag, the one that reaches the final \<^verbatim>\<open>else\<close> of both functions.
\<close>

datatype DataType =
  UNKNOWN | BOOL | UINT8 | INT8 | UINT16 | INT16 | UINT32 | INT32 | ENUM | FLOAT | STRING
  | TIMESERIES | EVENT_TABLE

text \<open>
  \<^verbatim>\<open>datetime.fromtimestamp\<close> gives the naive local date and time of a Unix timestamp. It
  belongs to the library and depends on the time zone of the platform, which is a
  parameter here: \<open>utcoffset t\<close> is the offset of local time from UTC at the instant \<open>t\<close>,
  in seconds. A naive \<^verbatim>\<open>datetime\<close> is represented by its wall-clock reading in seconds;
  two of them are equal, and hash alike, exactly when their readings are equal. Two
  instants can have the same reading (the hour that is repeated when clocks are set
  back), and are then the same dictionary key. The timestamps read here are below
  \<open>2^32\<close>, where the conversion does not fail.
\<close>

type_synonym datetime = int

definition fromtimestamp :: "(int \<Rightarrow> int) \<Rightarrow> int \<Rightarrow> datetime" where
  "fromtimestamp utcoffset t = t + utcoffset t"

text \<open>
  Modelled from the spec: the class \<^verbatim>\<open>EventEntry\<close> of \<^verbatim>\<open>rctclient/types.py\<close>, with the
  fields that the two constructor calls of \<^verbatim>\<open>decode_value\<close> pass by keyword. A field
  that a call does not pass is \<open>None\<close>. The one-character string \<^verbatim>\<open>entry_type\<close> is
  represented by its character.
\<close>

record EventEntry =
  timestamp :: datetime
  message_id :: int
  entry_type :: char
  value_old :: "int option"
  value_new :: "int option"
  timestamp_end :: "datetime option"

text \<open>
  The values that go into \<^verbatim>\<open>encode_value\<close> and come out of \<^verbatim>\<open>decode_value\<close>.
  \<^item> A \<^verbatim>\<open>float\<close> is an IEEE-754 double, given by its 64 bits.
  \<^item> A \<^verbatim>\<open>str\<close> is represented by its UTF-8 encoding, a \<^verbatim>\<open>bytes\<close> object by its bytes.
  \<^item> A dictionary is an association list in insertion order, updated with
    \<^const>\<open>AList.update\<close>: an existing key keeps its place and takes the new value.
\<close>

datatype pyval =
  PBool bool
  | PInt int
  | PFloat "64 word"
  | PStr bytes
  | PBytes bytes
  | PTimeseries datetime "(datetime \<times> 64 word) list"
  | PEventTable datetime "(datetime \<times> EventEntry) list"

subsection \<open>Integer formats of \<^verbatim>\<open>struct\<close>\<close>

text \<open>
  The byte order characters \<^verbatim>\<open>>\<close> and \<^verbatim>\<open><\<close>, and the integer format characters
  \<^verbatim>\<open>B\<close>, \<^verbatim>\<open>b\<close>, \<^verbatim>\<open>H\<close>, \<^verbatim>\<open>h\<close>, \<^verbatim>\<open>I\<close>, \<^verbatim>\<open>i\<close> in this order, with their standard
  sizes and ranges.
\<close>

datatype byteorder = Big | Little

datatype intfmt = UChar | SChar | UShort | SShort | UInt | SInt

fun fmt_size :: "intfmt \<Rightarrow> nat" where
  "fmt_size UChar = 1"
| "fmt_size SChar = 1"
| "fmt_size UShort = 2"
| "fmt_size SShort = 2"
| "fmt_size UInt = 4"
| "fmt_size SInt = 4"

fun fmt_signed :: "intfmt \<Rightarrow> bool" where
  "fmt_signed UChar = False"
| "fmt_signed SChar = True"
| "fmt_signed UShort = False"
| "fmt_signed SShort = True"
| "fmt_signed UInt = False"
| "fmt_signed SInt = True"

definition fmt_min :: "intfmt \<Rightarrow> int" where
  "fmt_min f = (if fmt_signed f then - (2 ^ (8 * fmt_size f - 1)) else 0)"

definition fmt_max :: "intfmt \<Rightarrow> int" where
  "fmt_max f = (if fmt_signed f then 2 ^ (8 * fmt_size f - 1) - 1 else 2 ^ (8 * fmt_size f) - 1)"

text \<open>
  The \<open>n\<close> low bytes of an integer, most significant first (two's complement for a
  negative one), and the unsigned integer that a byte string spells, most significant
  byte first.
\<close>

fun be_bytes :: "nat \<Rightarrow> int \<Rightarrow> bytes" where
  "be_bytes 0 v = []"
| "be_bytes (Suc n) v = be_bytes n (v div 256) @ [word_of_int (v mod 256)]"

definition be_int :: "bytes \<Rightarrow> int" where
  "be_int bs = foldl (\<lambda>acc b. acc * 256 + uint b) 0 bs"

fun order_bytes :: "byteorder \<Rightarrow> bytes \<Rightarrow> bytes" where
  "order_bytes Big bs = bs"
| "order_bytes Little bs = rev bs"

text \<open>An integer format takes an \<^verbatim>\<open>int\<close> or a \<^verbatim>\<open>bool\<close>, nothing else.\<close>

fun as_integer :: "pyval \<Rightarrow> int option" where
  "as_integer (PInt i) = Some i"
| "as_integer (PBool b) = Some (if b then 1 else 0)"
| "as_integer _ = None"

text \<open>
  \<^verbatim>\<open>struct.pack\<close> with one integer format: \<^verbatim>\<open>struct.error\<close> when the argument is not an
  integer or is outside the format's range.
\<close>

definition pack_int :: "byteorder \<Rightarrow> intfmt \<Rightarrow> pyval \<Rightarrow> error + bytes" where
  "pack_int bo f v =
     (case as_integer v of
        None \<Rightarrow> Inl StructError
      | Some i \<Rightarrow>
          if fmt_min f \<le> i \<and> i \<le> fmt_max f
          then Inr (order_bytes bo (be_bytes (fmt_size f) i))
          else Inl StructError)"

text \<open>
  \<^verbatim>\<open>struct.unpack\<close> with one integer format, and \<^verbatim>\<open>[0]\<close> of its result:
  \<^verbatim>\<open>struct.error\<close> unless the buffer has exactly the format's size.
\<close>

definition unpack_int :: "byteorder \<Rightarrow> intfmt \<Rightarrow> bytes \<Rightarrow> error + int" where
  "unpack_int bo f data =
     (if length data \<noteq> fmt_size f then Inl StructError
      else let u = be_int (order_bytes bo data)
           in Inr (if fmt_signed f \<and> fmt_max f < u then u - 2 ^ (8 * fmt_size f) else u))"

subsection \<open>The float format of \<^verbatim>\<open>struct\<close>\<close>

text \<open>
  The three fields of a single-precision pattern and of a double: the sign (1 bit), the
  biased exponent (8 and 11 bits) and the fraction (23 and 52 bits).
\<close>

definition f32_sign :: "32 word \<Rightarrow> nat" where
  "f32_sign w = unat w div 2 ^ 31"

definition f32_exp :: "32 word \<Rightarrow> nat" where
  "f32_exp w = unat w div 2 ^ 23 mod 2 ^ 8"

definition f32_frac :: "32 word \<Rightarrow> nat" where
  "f32_frac w = unat w mod 2 ^ 23"

definition f64_sign :: "64 word \<Rightarrow> nat" where
  "f64_sign d = unat d div 2 ^ 63"

definition f64_exp :: "64 word \<Rightarrow> nat" where
  "f64_exp d = unat d div 2 ^ 52 mod 2 ^ 11"

definition f64_frac :: "64 word \<Rightarrow> nat" where
  "f64_frac d = unat d mod 2 ^ 52"



text \<open>The number of bits of a natural number: 0 for 0, \<open>n\<close> for \<open>2^(n-1) \<le> m < 2^n\<close>.\<close>

fun bit_length :: "nat \<Rightarrow> nat" where
  "bit_length n = (if n = 0 then 0 else Suc (bit_length (n div 2)))"

declare bit_length.simps [simp del]

text \<open>
  Unpacking with the format \<^verbatim>\<open>f\<close> converts the single-precision value to the double of
  the same value, which always exists: an infinity stays one, a NaN stays one (it keeps
  its sign and fraction bits and is made quiet), a zero keeps its sign, a subnormal
  number \<open>f * 2^-149\<close> becomes a normal double, and a normal number keeps its fraction.
\<close>

definition f32_to_f64 :: "32 word \<Rightarrow> 64 word" where
  "f32_to_f64 w =
     (let e = f32_exp w; f = f32_frac w
      in word_of_nat (f32_sign w * 2 ^ 63 +
           (if e = 255 then 2047 * 2 ^ 52 + (if f = 0 then 0 else 2 ^ 51 + f mod 2 ^ 22 * 2 ^ 29)
            else if e = 0 then
              (if f = 0 then 0
               else (bit_length f + 873) * 2 ^ 52
                    + (f - 2 ^ (bit_length f - 1)) * 2 ^ (53 - bit_length f))
            else (e + 896) * 2 ^ 52 + f * 2 ^ 29)))"

text \<open>
  \<open>m / 2^sh\<close> rounded to the nearest integer, a tie to the even one: the rounding of a
  conversion to a narrower format.
\<close>

definition round_shift :: "nat \<Rightarrow> nat \<Rightarrow> nat" where
  "round_shift m sh =
     (let q = m div 2 ^ sh; r = m mod 2 ^ sh; half = 2 ^ (sh - 1)
      in if half < r \<or> (r = half \<and> odd q) then q + 1 else q)"

text \<open>
  Packing with the format \<^verbatim>\<open>f\<close> converts the double to single precision, rounding to
  nearest, ties to even. The 53-bit significand is shifted right by 29 bits for a normal
  result, and further for a subnormal one; a carry of the rounding moves into the
  exponent field. A finite double that rounds to an infinity cannot be packed
  (\<open>None\<close>); infinities and NaNs can.
\<close>

definition f64_to_f32 :: "64 word \<Rightarrow> 32 word option" where
  "f64_to_f32 d =
     (let e = f64_exp d; f = f64_frac d
      in if e = 2047 then
           Some (word_of_nat (f64_sign d * 2 ^ 31 + 255 * 2 ^ 23
                   + (if f = 0 then 0 else 2 ^ 22 + f div 2 ^ 29 mod 2 ^ 22)))
         else if e = 0 then Some (word_of_nat (f64_sign d * 2 ^ 31))
         else let r = (if 897 \<le> e then (e - 897) * 2 ^ 23 + round_shift (2 ^ 52 + f) 29
                       else round_shift (2 ^ 52 + f) (29 + (897 - e)))
              in if 255 * 2 ^ 23 \<le> r then None
                 else Some (word_of_nat (f64_sign d * 2 ^ 31 + r)))"

text \<open>
  The format \<^verbatim>\<open>f\<close> also takes an integer, which it converts to a double first, rounding
  to nearest, ties to even, at 53 significant bits; an integer beyond the doubles cannot
  be converted (\<open>None\<close>).
\<close>

definition double_of_int :: "int \<Rightarrow> 64 word option" where
  "double_of_int i =
     (let n = nat \<bar>i\<bar>;
          m = (if bit_length n \<le> 53 then n
               else round_shift n (bit_length n - 53) * 2 ^ (bit_length n - 53))
      in if 2 ^ 1024 \<le> m then None
         else if m = 0 then Some 0
         else let l = bit_length m;
                  sig = (if l \<le> 53 then m * 2 ^ (53 - l) else m div 2 ^ (l - 53))
              in Some (word_of_nat ((if i < 0 then 2 ^ 63 else 0)
                         + (l + 1022) * 2 ^ 52 + (sig - 2 ^ 52))))"

text \<open>
  \<^verbatim>\<open>struct.pack\<close> with the format \<^verbatim>\<open>f\<close>. A float that is too large is an
  \<^verbatim>\<open>OverflowError\<close>; for an integer argument \<^verbatim>\<open>struct\<close> turns every overflow into
  \<^verbatim>\<open>struct.error\<close>, which is also the error for an argument that is no number.
\<close>

fun pack_float :: "byteorder \<Rightarrow> pyval \<Rightarrow> error + bytes" where
  "pack_float bo (PFloat d) =
     (case f64_to_f32 d of
        None \<Rightarrow> Inl OverflowError
      | Some w \<Rightarrow> Inr (order_bytes bo (be_bytes 4 (uint w))))"
| "pack_float bo v =
     (case as_integer v of
        None \<Rightarrow> Inl StructError
      | Some i \<Rightarrow>
          (case double_of_int i of
             None \<Rightarrow> Inl StructError
           | Some d \<Rightarrow>
               (case f64_to_f32 d of
                  None \<Rightarrow> Inl StructError
                | Some w \<Rightarrow> Inr (order_bytes bo (be_bytes 4 (uint w))))))"

text \<open>
  \<^verbatim>\<open>struct.unpack\<close> with the format \<^verbatim>\<open>f\<close>, and \<^verbatim>\<open>[0]\<close> of its result: \<^verbatim>\<open>struct.error\<close>
  unless the buffer has exactly 4 bytes.
\<close>

definition unpack_float :: "byteorder \<Rightarrow> bytes \<Rightarrow> error + 64 word" where
  "unpack_float bo data =
     (if length data \<noteq> 4 then Inl StructError
      else Inr (f32_to_f64 (word_of_int (be_int (order_bytes bo data)))))"


subsection \<open>Other operations of Python\<close>

text \<open>
  The comparison \<^verbatim>\<open>value != 0\<close>: a float differs from 0 unless it is one of the two
  zeros (all bits zero but the sign); a string, a bytes object or a tuple always differs
  from 0.
\<close>

fun ne_zero :: "pyval \<Rightarrow> bool" where
  "ne_zero (PBool b) = b"
| "ne_zero (PInt i) = (i \<noteq> 0)"
| "ne_zero (PFloat d) = (take_bit 63 d \<noteq> 0)"
| "ne_zero _ = True"

text \<open>The slice \<^verbatim>\<open>data[i:j]\<close> for \<open>0 \<le> i \<le> j\<close>: it is shorter when the data end early.\<close>

definition py_slice :: "bytes \<Rightarrow> nat \<Rightarrow> nat \<Rightarrow> bytes" where
  "py_slice data i j = take (j - i) (drop i data)"

text \<open>\<^verbatim>\<open>range(0, stop, step)\<close>: the multiples of the step below the stop.\<close>

definition range_step :: "nat \<Rightarrow> nat \<Rightarrow> nat list" where
  "range_step stop step = filter (\<lambda>p. p mod step = 0) [0..<stop]"

text \<open>
  \<^verbatim>\<open>bytes([n]).decode('ascii')\<close>: \<^verbatim>\<open>bytes\<close> raises \<^verbatim>\<open>ValueError\<close> unless \<open>0 \<le> n < 256\<close>,
  and the ASCII codec raises \<^verbatim>\<open>UnicodeDecodeError\<close> on a byte of 128 or more.
\<close>

definition ascii_char :: "int \<Rightarrow> error + char" where
  "ascii_char n =
     (if n < 0 \<or> 256 \<le> n then Inl ValueError
      else if 128 \<le> n then Inl UnicodeDecodeError
      else Inr (char_of n))"

text \<open>
  \<^verbatim>\<open>data.decode('utf-8')\<close> succeeds on well-formed UTF-8 only. \<open>utf8_head\<close> is the
  length of the well-formed sequence that starts the bytes, 0 when there is none.
\<close>

definition utf8_tail :: "byte \<Rightarrow> bool" where
  "utf8_tail b = (0x80 \<le> b \<and> b \<le> 0xBF)"

definition utf8_head :: "bytes \<Rightarrow> nat" where
  "utf8_head bs =
     (case bs of
        [] \<Rightarrow> 0
      | b # r \<Rightarrow>
          if b \<le> 0x7F then 1
          else if 0xC2 \<le> b \<and> b \<le> 0xDF then
            (case r of c1 # _ \<Rightarrow> if utf8_tail c1 then 2 else 0 | _ \<Rightarrow> 0)
          else if 0xE0 \<le> b \<and> b \<le> 0xEF then
            (case r of
               c1 # c2 # _ \<Rightarrow>
                 if (if b = 0xE0 then 0xA0 else 0x80) \<le> c1
                    \<and> c1 \<le> (if b = 0xED then 0x9F else 0xBF) \<and> utf8_tail c2
                 then 3 else 0
             | _ \<Rightarrow> 0)
          else if 0xF0 \<le> b \<and> b \<le> 0xF4 then
            (case r of
               c1 # c2 # c3 # _ \<Rightarrow>
                 if (if b = 0xF0 then 0x90 else 0x80) \<le> c1
                    \<and> c1 \<le> (if b = 0xF4 then 0x8F else 0xBF) \<and> utf8_tail c2 \<and> utf8_tail c3
                 then 4 else 0
             | _ \<Rightarrow> 0)
          else 0)"

fun valid_utf8 :: "bytes \<Rightarrow> bool" where
  "valid_utf8 bs =
     (if bs = [] then True
      else if utf8_head bs = 0 then False
      else valid_utf8 (drop (utf8_head bs) bs))"

declare valid_utf8.simps [simp del]

section \<open>Value codec: \<^verbatim>\<open>encode_value\<close>\<close>

text \<open>
  The unsigned tags first pack the value with the signed format of the same size and
  read the bytes back with the unsigned one, both little-endian:
  \<^verbatim>\<open>struct.unpack('<H', struct.pack('<h', value))[0]\<close>.
\<close>

definition reinterpret :: "intfmt \<Rightarrow> intfmt \<Rightarrow> pyval \<Rightarrow> error + int" where
  "reinterpret s u v =
     (case pack_int Little s v of
        Inl e \<Rightarrow> Inl e
      | Inr bs \<Rightarrow> unpack_int Little u bs)"

text \<open>One equation for each branch of the source, in its order.\<close>

fun encode_value :: "DataType \<Rightarrow> pyval \<Rightarrow> error + bytes" where
  "encode_value BOOL v = pack_int Big UChar (PBool (ne_zero v))"
| "encode_value UINT8 v =
     (case reinterpret SChar UChar v of
        Inl e \<Rightarrow> Inl e
      | Inr u \<Rightarrow> pack_int Big UChar (PInt u))"
| "encode_value INT8 v = pack_int Big SChar v"
| "encode_value UINT16 v =
     (case reinterpret SShort UShort v of
        Inl e \<Rightarrow> Inl e
      | Inr u \<Rightarrow> pack_int Big UShort (PInt u))"
| "encode_value INT16 v = pack_int Big SShort v"
| "encode_value UINT32 v =
     (case reinterpret SInt UInt v of
        Inl e \<Rightarrow> Inl e
      | Inr u \<Rightarrow> pack_int Big UInt (PInt u))"
| "encode_value INT32 v = pack_int Big SInt v"
| "encode_value ENUM v =
     (case reinterpret SShort UShort v of
        Inl e \<Rightarrow> Inl e
      | Inr u \<Rightarrow> pack_int Big UShort (PInt u))"
| "encode_value FLOAT v = pack_float Big v"
| "encode_value STRING v =
     (case v of
        PStr s \<Rightarrow> Inr s
      | PBytes bs \<Rightarrow> Inr bs
      | _ \<Rightarrow> Inl ValueError)"
| "encode_value TIMESERIES v = Inl KeyError"
| "encode_value EVENT_TABLE v = Inl KeyError"
| "encode_value UNKNOWN v = Inl KeyError"

section \<open>Value codec: \<^verbatim>\<open>decode_value\<close>\<close>

text \<open>
  The loop of the \<^verbatim>\<open>TIMESERIES\<close> branch over the values of \<^verbatim>\<open>pair\<close>: a timestamp and a
  float are read at the offsets of the source, and stored in the dictionary under the
  \<^verbatim>\<open>datetime\<close> of the timestamp.
\<close>

fun timeseries_loop ::
  "(int \<Rightarrow> int) \<Rightarrow> bytes \<Rightarrow> nat list \<Rightarrow> (datetime \<times> 64 word) list
     \<Rightarrow> error + (datetime \<times> 64 word) list" where
  "timeseries_loop utcoffset data [] tsval = Inr tsval"
| "timeseries_loop utcoffset data (pair # pairs) tsval =
     (case unpack_int Big UInt (py_slice data (4 + pair * 4) (4 + pair * 4 + 4)) of
        Inl e \<Rightarrow> Inl e
      | Inr t \<Rightarrow>
          (case unpack_float Big (py_slice data (4 + pair * 4 + 4) (4 + pair * 4 + 4 + 4)) of
             Inl e \<Rightarrow> Inl e
           | Inr pair_val \<Rightarrow>
               timeseries_loop utcoffset data pairs
                 (AList.update (fromtimestamp utcoffset t) pair_val tsval)))"

text \<open>
  The body of the loop of the \<^verbatim>\<open>EVENT_TABLE\<close> branch, up to the entry it builds: the
  reads happen in the order of the source, each at the source's offsets.
\<close>

definition event_entry :: "(int \<Rightarrow> int) \<Rightarrow> bytes \<Rightarrow> nat \<Rightarrow> error + EventEntry" where
  "event_entry utcoffset data pair =
     (case unpack_int Big UInt (py_slice data (4 + pair * 4) (4 + pair * 4 + 4)) of
        Inl e \<Rightarrow> Inl e
      | Inr code \<Rightarrow>
     (case ascii_char code of
        Inl e \<Rightarrow> Inl e
      | Inr etype \<Rightarrow>
     (case unpack_int Big UInt (py_slice data (4 + pair * 4 + 4) (4 + pair * 4 + 8)) of
        Inl e \<Rightarrow> Inl e
      | Inr t \<Rightarrow>
          if etype = CHR ''s'' \<or> etype = CHR ''w'' then
            (case unpack_int Big UInt (py_slice data (4 + pair * 4 + 8) (4 + pair * 4 + 12)) of
               Inl e \<Rightarrow> Inl e
             | Inr mid \<Rightarrow>
            (case unpack_int Big UInt (py_slice data (4 + pair * 4 + 12) (4 + pair * 4 + 16)) of
               Inl e \<Rightarrow> Inl e
             | Inr vold \<Rightarrow>
            (case unpack_int Big UInt (py_slice data (4 + pair * 4 + 16) (4 + pair * 4 + 20)) of
               Inl e \<Rightarrow> Inl e
             | Inr vnew \<Rightarrow>
                 Inr \<lparr>timestamp = fromtimestamp utcoffset t, message_id = mid,
                      entry_type = etype, value_old = Some vold, value_new = Some vnew,
                      timestamp_end = None\<rparr>)))
          else
            (case unpack_int Big UInt (py_slice data (4 + pair * 4 + 12) (4 + pair * 4 + 16)) of
               Inl e \<Rightarrow> Inl e
             | Inr tend \<Rightarrow>
            (case unpack_int Big UInt (py_slice data (4 + pair * 4 + 16) (4 + pair * 4 + 20)) of
               Inl e \<Rightarrow> Inl e
             | Inr mid \<Rightarrow>
                 Inr \<lparr>timestamp = fromtimestamp utcoffset t, message_id = mid,
                      entry_type = etype, value_old = None, value_new = None,
                      timestamp_end = Some (fromtimestamp utcoffset tend)\<rparr>)))))"

text \<open>The loop: each entry is stored in the dictionary under its \<^verbatim>\<open>datetime\<close>.\<close>

fun event_loop ::
  "(int \<Rightarrow> int) \<Rightarrow> bytes \<Rightarrow> nat list \<Rightarrow> (datetime \<times> EventEntry) list
     \<Rightarrow> error + (datetime \<times> EventEntry) list" where
  "event_loop utcoffset data [] tabval = Inr tabval"
| "event_loop utcoffset data (pair # pairs) tabval =
     (case event_entry utcoffset data pair of
        Inl e \<Rightarrow> Inl e
      | Inr entry \<Rightarrow>
          event_loop utcoffset data pairs (AList.update (timestamp entry) entry tabval))"

text \<open>
  One equation for each branch of the source. In the two composite branches the anchor
  is read first, then the two assertions are checked, then the loop runs. After the first
  assertion the length is a multiple of 4, so the float division of
  \<^verbatim>\<open>int(len(data) / 4 - 1)\<close> is exact.
\<close>

fun decode_value :: "(int \<Rightarrow> int) \<Rightarrow> DataType \<Rightarrow> bytes \<Rightarrow> error + pyval" where
  "decode_value utcoffset BOOL data =
     (case unpack_int Big UChar data of
        Inl e \<Rightarrow> Inl e
      | Inr v \<Rightarrow> Inr (PBool (v \<noteq> 0)))"
| "decode_value utcoffset UINT8 data = map_sum id PInt (unpack_int Big UChar data)"
| "decode_value utcoffset INT8 data = map_sum id PInt (unpack_int Big SChar data)"
| "decode_value utcoffset UINT16 data = map_sum id PInt (unpack_int Big UShort data)"
| "decode_value utcoffset INT16 data = map_sum id PInt (unpack_int Big SShort data)"
| "decode_value utcoffset UINT32 data = map_sum id PInt (unpack_int Big UInt data)"
| "decode_value utcoffset INT32 data = map_sum id PInt (unpack_int Big SInt data)"
| "decode_value utcoffset ENUM data = map_sum id PInt (unpack_int Big UShort data)"
| "decode_value utcoffset FLOAT data = map_sum id PFloat (unpack_float Big data)"
| "decode_value utcoffset STRING data =
     (if valid_utf8 data then Inr (PStr data) else Inl UnicodeDecodeError)"
| "decode_value utcoffset TIMESERIES data =
     (case unpack_int Big UInt (py_slice data 0 4) of
        Inl e \<Rightarrow> Inl e
      | Inr t \<Rightarrow>
          if int (length data) mod 4 \<noteq> 0 then Inl AssertionError
          else if int (length data) div 4 mod 2 \<noteq> 1 then Inl AssertionError
          else (case timeseries_loop utcoffset data (range_step (length data div 4 - 1) 2) [] of
                  Inl e \<Rightarrow> Inl e
                | Inr tsval \<Rightarrow> Inr (PTimeseries (fromtimestamp utcoffset t) tsval)))"
| "decode_value utcoffset EVENT_TABLE data =
     (case unpack_int Big UInt (py_slice data 0 4) of
        Inl e \<Rightarrow> Inl e
      | Inr t \<Rightarrow>
          if int (length data) mod 4 \<noteq> 0 then Inl AssertionError
          else if (int (length data) - 4) mod 20 \<noteq> 0 then Inl AssertionError
          else (case event_loop utcoffset data (range_step (length data div 4 - 1) 5) [] of
                  Inl e \<Rightarrow> Inl e
                | Inr tabval \<Rightarrow> Inr (PEventTable (fromtimestamp utcoffset t) tabval)))"
| "decode_value utcoffset UNKNOWN data = Inl KeyError"

section \<open>Notions used to state the properties\<close>


text \<open>
  The entry strides of an \<open>EVENT_TABLE\<close> buffer are numbered from 0; stride \<open>k\<close> is the
  20 bytes from offset \<open>4 + 20 * k\<close>, after the 4 bytes of the anchor. \<open>stride_field\<close>
  is the 32-bit big-endian value of the 4 bytes at offset \<open>off\<close> of stride \<open>k\<close>, that is
  of the stride's bytes \<open>off\<close> to \<open>off + 3\<close>.
\<close>

definition stride_field :: "bytes \<Rightarrow> nat \<Rightarrow> nat \<Rightarrow> int" where
  "stride_field data k off = be_int (take 4 (drop (4 + 20 * k + off) data))"

text \<open>
  Two time zones: UTC, and Europe/Berlin around 25 October 2020, two hours ahead of UTC
  until the clocks were set back at 01:00 UTC (the instant 1603587600), one hour ahead
  after.
\<close>

definition utc :: "int \<Rightarrow> int" where
  "utc t = 0"


text \<open>
  Buffers with the anchor 5. \<open>table_two\<close> has the entry of the specification's example
  (type \<open>s\<close>, timestamp 1000, message id 5, old value 10, new value 20) and an entry of
  type \<open>c\<close> with the timestamp 2000 and the bytes 9, 9, 9, 9 in its unused slot.
  \<open>table_s\<close> has the first entry only; \<open>table_high\<close> has it with a type field of
  \<open>0x00000173\<close> (low byte \<open>s\<close>, a non-zero byte above it) and \<open>table_x80\<close> with a type
  field of \<open>0x00000080\<close>; \<open>table_two_high\<close> has the field \<open>0x00000173\<close> in its second
  entry. The two entries of \<open>table_dst\<close> have the timestamps 1603585800 and 1603589400,
  an hour apart.
\<close>

definition table_s :: bytes where
  "table_s = [0, 0, 0, 5,  0, 0, 0, 0x73,  0, 0, 3, 0xE8,  0, 0, 0, 5,  0, 0, 0, 10,  0, 0, 0, 20]"

definition table_high :: bytes where
  "table_high = [0, 0, 0, 5,  0, 0, 1, 0x73,  0, 0, 3, 0xE8,  0, 0, 0, 5,  0, 0, 0, 10,  0, 0, 0, 20]"

definition table_x80 :: bytes where
  "table_x80 = [0, 0, 0, 5,  0, 0, 0, 0x80,  0, 0, 3, 0xE8,  0, 0, 0, 5,  0, 0, 0, 10,  0, 0, 0, 20]"

definition table_two :: bytes where
  "table_two = [0, 0, 0, 5,
     0, 0, 0, 0x73,  0, 0, 3, 0xE8,  0, 0, 0, 5,  0, 0, 0, 10,  0, 0, 0, 20,
     0, 0, 0, 0x63,  0, 0, 7, 0xD0,  9, 9, 9, 9,  0, 0, 0, 10,  0, 0, 0, 20]"

definition table_two_high :: bytes where
  "table_two_high = [0, 0, 0, 5,
     0, 0, 0, 0x73,  0, 0, 3, 0xE8,  0, 0, 0, 5,  0, 0, 0, 10,  0, 0, 0, 20,
     0, 0, 1, 0x73,  0, 0, 7, 0xD0,  0, 0, 0, 5,  0, 0, 0, 10,  0, 0, 0, 20]"


text \<open>The invariant of both loops: the accumulator is a 16-bit value.\<close>

definition acc16 :: "int \<Rightarrow> bool" where
  "acc16 c = (0 \<le> c \<and> c < 65536)"

section \<open>Properties of the checksum\<close>

text \<open>The accumulator stays within 16 bits between any two steps of the loops.\<close>

lemma and_ffff: "(x::int) AND 0xFFFF = take_bit 16 x"
  using take_bit_eq_mask[of 16 x] by (simp add: mask_eq_exp_minus_1)

lemma ref_test:
  assumes "0 \<le> (x::int)"
  shows "(drop_bit 16 x \<noteq> 0) = (65536 \<le> x)"
proof -
  have "0 \<le> x div 65536" using assms by simp
  moreover have "(0 < x div 65536) = (65536 \<le> x)"
    by (simp add: pos_imp_zdiv_pos_iff)
  ultimately show ?thesis by (simp add: drop_bit_eq_div) linarith
qed

lemma guard_test:
  assumes "0 \<le> (x::int)" "x < 131072"
  shows "(x AND 0x7FFF0000 \<noteq> 0) = (65536 \<le> x)"
proof -
  have m: "(0x7FFF0000::int) = push_bit 16 (mask 15)"
    by (simp add: mask_eq_exp_minus_1 push_bit_eq_mult)
  have "x AND 0x7FFF0000 = push_bit 16 (drop_bit 16 x AND mask 15)"
    unfolding m by (auto simp add: bit_eq_iff bit_simps)
  also have "drop_bit 16 x AND mask 15 = drop_bit 16 x"
  proof -
    have "drop_bit 16 x < 2" using assms by (simp add: drop_bit_eq_div)
    moreover have nn: "0 \<le> drop_bit 16 x" using assms by simp
    ultimately have "drop_bit 16 x < 2 ^ 15" by simp
    then show ?thesis using nn
      by (simp flip: take_bit_eq_mask add: take_bit_int_eq_self)
  qed
  finally have "x AND 0x7FFF0000 = push_bit 16 (drop_bit 16 x)" .
  then have "(x AND 0x7FFF0000 \<noteq> 0) = (drop_bit 16 x \<noteq> 0)"
    by (simp add: push_bit_eq_mult)
  also have "\<dots> = (65536 \<le> x)" using assms(1) by (rule ref_test)
  finally show ?thesis .
qed

lemma xor_poly_bound:
  assumes "0 \<le> (y::int)" "y < 65536"
  shows "0 \<le> y XOR 0x1021 \<and> y XOR 0x1021 < 65536"
proof -
  have "y XOR 0x1021 < 2 ^ 16"
    by (rule XOR_upper) (use assms in simp_all)
  then show ?thesis using assms by simp
qed

lemma crc_shift_acc16: "acc16 c \<Longrightarrow> acc16 (crc_shift c)"
proof -
  assume a: "acc16 c"
  let ?s = "push_bit 1 c"
  have s: "0 \<le> ?s" "?s < 131072" using a by (simp_all add: acc16_def push_bit_eq_mult)
  have t: "0 \<le> take_bit 16 ?s" "take_bit 16 ?s < 65536"
    using take_bit_int_less_exp[of 16 ?s] by simp_all
  show ?thesis
    using guard_test[OF s] xor_poly_bound[OF t] s
    by (simp add: crc_shift_def Let_def acc16_def and_ffff)
qed

lemma crc_shift_ref: "acc16 c \<Longrightarrow> crc_shift c = ref_shift c"
proof -
  assume a: "acc16 c"
  let ?s = "push_bit 1 c"
  have s: "0 \<le> ?s" "?s < 131072" using a by (simp_all add: acc16_def push_bit_eq_mult)
  show ?thesis
    using guard_test[OF s] ref_test[OF s(1)]
    by (simp add: crc_shift_def ref_shift_def Let_def and_ffff)
qed

lemma crc_bits_acc16: "acc16 c \<Longrightarrow> acc16 (crc_bits n c)"
  by (induction n arbitrary: c) (simp_all add: crc_shift_acc16)

lemma crc_bits_ref: "acc16 c \<Longrightarrow> crc_bits n c = (ref_shift ^^ n) c"
proof (induction n arbitrary: c)
  case 0
  then show ?case by simp
next
  case (Suc n)
  have "crc_bits (Suc n) c = crc_bits n (crc_shift c)" by simp
  also have "\<dots> = (ref_shift ^^ n) (crc_shift c)"
    using Suc.prems by (intro Suc.IH crc_shift_acc16)
  also have "\<dots> = (ref_shift ^^ Suc n) c"
    using Suc.prems by (simp add: crc_shift_ref funpow_swap1)
  finally show ?case .
qed

lemma xor_byte_acc16:
  assumes "acc16 c"
  shows "acc16 (c XOR push_bit 8 (uint (b::byte)))"
proof -
  have "uint b < 2 ^ 8" using uint_lt2p[of b] by simp
  then have u: "push_bit 8 (uint b) < 2 ^ 16" by (simp add: push_bit_eq_mult)
  have "c XOR push_bit 8 (uint b) < 2 ^ 16"
    by (rule XOR_upper) (use assms u in \<open>simp_all add: acc16_def\<close>)
  then show ?thesis using assms by (simp add: acc16_def)
qed

lemma crc_bytes_acc16: "acc16 c \<Longrightarrow> acc16 (crc_bytes buffer c)"
  by (induction buffer arbitrary: c) (simp_all add: crc_bits_acc16 xor_byte_acc16)

lemma crc_bytes_ref: "acc16 c \<Longrightarrow> crc_bytes buffer c = foldl ref_byte c buffer"
proof (induction buffer arbitrary: c)
  case Nil
  then show ?case by simp
next
  case (Cons b buffer)
  have x: "acc16 (c XOR push_bit 8 (uint b))" using Cons.prems by (rule xor_byte_acc16)
  have "acc16 (crc_bits 8 (c XOR push_bit 8 (uint b)))" using x by (rule crc_bits_acc16)
  then show ?case
    using Cons.IH crc_bits_ref[OF x, of 8] by (simp add: ref_byte_def)
qed

lemma acc16_seed: "acc16 0xFFFF" by (simp add: acc16_def)

lemma odd_test: "(int n AND 0x01 \<noteq> 0) = odd n"
  by (simp add: and_one_eq mod_2_eq_odd)

text \<open>The two loops of the source compute the reference algorithm from the seed.\<close>

lemma crc_bytes_reference: "crc_bytes buffer 0xFFFF = checksum_ref buffer"
proof -
  have "acc16 (crc_bytes buffer 0xFFFF)" using acc16_seed by (rule crc_bytes_acc16)
  then have "take_bit 16 (crc_bytes buffer 0xFFFF) = crc_bytes buffer 0xFFFF"
    by (simp add: acc16_def take_bit_int_eq_self)
  then show ?thesis
    unfolding checksum_ref_def crc_bytes_ref [OF acc16_seed, symmetric] by simp
qed

lemma CRC16_buffer:
  "CRC16 data = crc_bytes (if odd (length data) then data @ [0] else data) 0xFFFF"
  by (simp add: CRC16_def odd_test)

text \<open>
  Claim C2. On the buffer that is left after the padding step (the data, with a zero byte
  appended when its length is odd), \<open>CRC16\<close> computes exactly the reference algorithm
  of the specification: seed \<open>0xFFFF\<close>, each byte XORed into the high 8 bits, then 8
  times a left shift followed, whenever a bit at or above position 16 is set, by the mask
  to 16 bits and the XOR with \<open>0x1021\<close>; the result is the low 16 bits.
\<close>

theorem CRC16_is_reference: "CRC16 data = checksum_ref (if odd (length data) then data @ [0] else data)"
  by (simp only: CRC16_buffer crc_bytes_reference)

text \<open>
  Claim C8. For every byte sequence, the empty one included, \<open>CRC16\<close> returns a value
  between 0 and 65535. The function is total and has no error branch: nothing in the
  source can raise on a bytes object.
\<close>

theorem CRC16_range: "0 \<le> CRC16 data \<and> CRC16 data \<le> 65535"
  using crc_bytes_acc16[OF acc16_seed, of "if int (length data) AND 0x01 \<noteq> 0 then data @ [0] else data"]
  by (simp add: CRC16_def acc16_def)

text \<open>Two sequences of odd length, on which skipping the first byte gives another value.\<close>

lemma CRC16_values:
  "CRC16 [1] = 11838" "checksum_ref (tl [1]) = 65535"
  "CRC16 [1, 2, 3] = 51527" "checksum_ref (tl [1, 2, 3]) \<noteq> 51527"
  by code_simp+

text \<open>
  Claim C6. For every byte sequence of odd length, the checksum is what the reference
  algorithm computes on the sequence with one zero byte appended, which is also the
  checksum of that longer sequence: the padding is a trailing zero byte. It is not the
  skipping of the first byte: on the sequences \<open>[1]\<close> and \<open>[1, 2, 3]\<close> the checksum
  differs from what the reference algorithm computes on the sequence without its first
  byte.
\<close>

theorem CRC16_odd_padding:
  "(odd (length b) \<longrightarrow> CRC16 b = checksum_ref (b @ [0]) \<and> CRC16 b = CRC16 (b @ [0]))
   \<and> CRC16 [1] \<noteq> checksum_ref (tl [1])
   \<and> CRC16 [1, 2, 3] \<noteq> checksum_ref (tl [1, 2, 3])"
proof (intro conjI impI)
  assume o: "odd (length b)"
  show "CRC16 b = checksum_ref (b @ [0])"
    using o by (simp add: CRC16_buffer crc_bytes_reference)
  moreover have "CRC16 (b @ [0]) = checksum_ref (b @ [0])"
    using o by (simp add: CRC16_buffer crc_bytes_reference)
  ultimately show "CRC16 b = CRC16 (b @ [0])" by simp
next
  show "CRC16 [1] \<noteq> checksum_ref (tl [1])"
    by (simp only: CRC16_values)
  show "CRC16 [1, 2, 3] \<noteq> checksum_ref (tl [1, 2, 3])"
    using CRC16_values(4) by (simp only: CRC16_values(3))
qed

theorem CRC16_odd_padding_witness:
  "odd (length [1, 2, 3 :: byte])
   \<and> CRC16 [1, 2, 3] = checksum_ref ([1, 2, 3] @ [0])
   \<and> CRC16 [1, 2, 3] = CRC16 ([1, 2, 3] @ [0])
   \<and> CRC16 [1, 2, 3] = 51527"
proof -
  have o: "odd (length [1, 2, 3 :: byte])" by simp
  note t = CRC16_odd_padding [of "[1, 2, 3]", THEN conjunct1, rule_format, OF o]
  show ?thesis
    by (intro conjI o t [THEN conjunct1] t [THEN conjunct2] CRC16_values(3))
qed

section \<open>Properties of the scalar codec\<close>



























subsection \<open>Single precision and doubles\<close>


















subsection \<open>The unsigned tags\<close>









section \<open>Properties of the composite decoders: lengths\<close>

text \<open>The anchor is read from the slice \<^verbatim>\<open>data[0:4]\<close>, which is short when the data are.\<close>

lemma anchor_read_short:
  "length data < 4 \<Longrightarrow> unpack_int Big UInt (py_slice data 0 4) = Inl StructError"
  by (simp add: unpack_int_def py_slice_def)

lemma anchor_read_ok:
  "4 \<le> length data \<Longrightarrow> unpack_int Big UInt (py_slice data 0 4) = Inr (be_int (take 4 data))"
  by (simp add: unpack_int_def py_slice_def)

lemma range_step_0: "range_step 0 step = []"
  by (simp add: range_step_def)

text \<open>
  Claim C7. Whatever the value, \<open>encode_value\<close> with the tag \<open>TIMESERIES\<close> or
  \<open>EVENT_TABLE\<close> ends in the final \<^verbatim>\<open>else\<close> of the source, which raises the
  \<^verbatim>\<open>KeyError\<close> for an undefined or unknown type: no bytes are produced.
\<close>

theorem encode_composite_fails:
  "encode_value TIMESERIES v = Inl KeyError \<and> encode_value EVENT_TABLE v = Inl KeyError"
  by simp

text \<open>
  Claim C9. A buffer of exactly 4 bytes is an anchor with no entry: both composite
  decoders succeed on it and return the anchor, the local date and time of the timestamp
  read big-endian from the 4 bytes, with an empty dictionary.
\<close>

theorem decode_anchor_only:
  "length data = 4 \<Longrightarrow>
     decode_value utcoffset TIMESERIES data =
       Inr (PTimeseries (fromtimestamp utcoffset (be_int data)) [])
     \<and> decode_value utcoffset EVENT_TABLE data =
       Inr (PEventTable (fromtimestamp utcoffset (be_int data)) [])"
  by (simp add: anchor_read_ok range_step_0)

theorem decode_anchor_only_witness:
  "length [0, 0, 3, 232 :: byte] = 4
   \<and> decode_value utc TIMESERIES [0, 0, 3, 232] = Inr (PTimeseries 1000 [])
   \<and> decode_value utc EVENT_TABLE [0, 0, 3, 232] = Inr (PEventTable 1000 [])"
  using decode_anchor_only [of "[0, 0, 3, 232]" utc] by (simp add: be_int_def fromtimestamp_def utc_def)

text \<open>
  Claim C10. On a buffer of fewer than 4 bytes, the empty one included, the read of the
  anchor fails with \<^verbatim>\<open>struct.error\<close>, and this is the error of both composite decoders:
  neither assertion on the length (which would raise \<^verbatim>\<open>AssertionError\<close>) is reached, and
  no dictionary is returned.
\<close>

theorem decode_short_fails_at_anchor:
  "length data < 4 \<Longrightarrow>
     unpack_int Big UInt (py_slice data 0 4) = Inl StructError
     \<and> decode_value utcoffset TIMESERIES data = Inl StructError
     \<and> decode_value utcoffset EVENT_TABLE data = Inl StructError"
  by (simp add: anchor_read_short)

theorem decode_short_fails_at_anchor_witness:
  "length ([] :: bytes) < 4 \<and> length [1, 2, 3 :: byte] < 4
   \<and> decode_value utc TIMESERIES [] = Inl StructError
   \<and> decode_value utc EVENT_TABLE [] = Inl StructError
   \<and> decode_value utc TIMESERIES [1, 2, 3] = Inl StructError
   \<and> decode_value utc EVENT_TABLE [1, 2, 3] = Inl StructError"
  using decode_short_fails_at_anchor [of "[]" utc] decode_short_fails_at_anchor [of "[1, 2, 3]" utc]
  by simp

lemma timeseries_length_fails:
  assumes "int (length data) mod 4 \<noteq> 0 \<or> (int (length data) - 4) mod 8 \<noteq> 0"
  shows "decode_value utcoffset TIMESERIES data =
           Inl (if length data < 4 then StructError else AssertionError)"
proof (cases "length data < 4")
  case True
  then show ?thesis by (simp add: anchor_read_short)
next
  case False
  then have l: "4 \<le> length data" by simp
  have "int (length data) mod 4 \<noteq> 0 \<or> int (length data) div 4 mod 2 \<noteq> 1"
    using assms by presburger
  then show ?thesis using False by (auto simp add: anchor_read_ok [OF l])
qed

lemma event_table_length_fails:
  assumes "(int (length data) - 4) mod 20 \<noteq> 0"
  shows "decode_value utcoffset EVENT_TABLE data =
           Inl (if length data < 4 then StructError else AssertionError)"
proof (cases "length data < 4")
  case True
  then show ?thesis by (simp add: anchor_read_short)
next
  case False
  then have l: "4 \<le> length data" by simp
  show ?thesis using False assms by (simp add: anchor_read_ok [OF l])
qed

text \<open>
  Claim C5. A \<open>TIMESERIES\<close> buffer whose length is not a multiple of 4, or whose length
  after the 4 bytes of the anchor is not a multiple of 8, and an \<open>EVENT_TABLE\<close> buffer
  whose length after the anchor is not a multiple of 20, make \<open>decode_value\<close> fail: the
  result is an error (the \<^verbatim>\<open>struct.error\<close> of the anchor read below 4 bytes, the
  \<^verbatim>\<open>AssertionError\<close> of a length check from 4 bytes on) and never a dictionary.
\<close>

theorem decode_bad_length_fails:
  "(int (length data) mod 4 \<noteq> 0 \<or> (int (length data) - 4) mod 8 \<noteq> 0 \<longrightarrow>
      decode_value utcoffset TIMESERIES data =
        Inl (if length data < 4 then StructError else AssertionError))
   \<and> ((int (length data) - 4) mod 20 \<noteq> 0 \<longrightarrow>
      decode_value utcoffset EVENT_TABLE data =
        Inl (if length data < 4 then StructError else AssertionError))"
  using timeseries_length_fails event_table_length_fails by blast

theorem decode_bad_length_fails_witness:
  "int (length [0, 0, 0, 5, 0, 0 :: byte]) mod 4 \<noteq> 0
   \<and> decode_value utc TIMESERIES [0, 0, 0, 5, 0, 0] = Inl AssertionError
   \<and> (int (length [0, 0, 0, 5, 0, 0, 0, 7 :: byte]) - 4) mod 8 \<noteq> 0
   \<and> decode_value utc TIMESERIES [0, 0, 0, 5, 0, 0, 0, 7] = Inl AssertionError
   \<and> (int (length [0, 0, 0, 5, 0, 0, 0, 7 :: byte]) - 4) mod 20 \<noteq> 0
   \<and> decode_value utc EVENT_TABLE [0, 0, 0, 5, 0, 0, 0, 7] = Inl AssertionError"
  using decode_bad_length_fails [of "[0, 0, 0, 5, 0, 0]" utc]
    decode_bad_length_fails [of "[0, 0, 0, 5, 0, 0, 0, 7]" utc]
  by simp

section \<open>Properties of the event table decoder\<close>

text \<open>A read of 4 bytes that lie within the data gives their big-endian value.\<close>

lemma unpack_slice:
  "i + 4 = j \<Longrightarrow> j \<le> length data \<Longrightarrow>
     unpack_int Big UInt (py_slice data i j) = Inr (be_int (take 4 (drop i data)))"
  by (auto simp add: unpack_int_def py_slice_def)

lemma be_int_nonneg: "0 \<le> be_int bs"
proof -
  have "0 \<le> a \<Longrightarrow> 0 \<le> foldl (\<lambda>acc b. acc * 256 + uint (b :: byte)) a bs" for a
    by (induction bs arbitrary: a) simp_all
  then show ?thesis by (simp add: be_int_def)
qed

lemma event_entry_stride:
  assumes "4 + 20 * k + 20 \<le> length data"
  shows "event_entry utcoffset data (5 * k) =
     (case ascii_char (stride_field data k 0) of
        Inl x \<Rightarrow> Inl x
      | Inr c \<Rightarrow>
          Inr (if c = CHR ''s'' \<or> c = CHR ''w''
               then \<lparr>timestamp = fromtimestamp utcoffset (stride_field data k 4), message_id = stride_field data k 8,
                     entry_type = c, value_old = Some (stride_field data k 12),
                     value_new = Some (stride_field data k 16), timestamp_end = None\<rparr>
               else \<lparr>timestamp = fromtimestamp utcoffset (stride_field data k 4), message_id = stride_field data k 16,
                     entry_type = c, value_old = None, value_new = None,
                     timestamp_end = Some (fromtimestamp utcoffset (stride_field data k 12))\<rparr>))"
  using assms
  by (simp add: event_entry_def stride_field_def unpack_slice split: sum.splits)

lemma event_loop_all_ok:
  "event_loop utcoffset data ps tab = Inr tab' \<Longrightarrow> p \<in> set ps \<Longrightarrow> \<exists>e. event_entry utcoffset data p = Inr e"
  by (induction ps arbitrary: tab) (auto split: sum.splits)

lemma event_loop_first_failure:
  "(\<And>q. q \<in> set ps1 \<Longrightarrow> \<exists>e. event_entry utcoffset data q = Inr e) \<Longrightarrow> event_entry utcoffset data p = Inl x \<Longrightarrow>
     event_loop utcoffset data (ps1 @ p # ps2) tab = Inl x"
proof (induction ps1 arbitrary: tab)
  case Nil
  then show ?case by simp
next
  case (Cons q ps1)
  obtain e where "event_entry utcoffset data q = Inr e" using Cons.prems(1) [of q] by auto
  then show ?case using Cons by simp
qed

lemma event_loop_keeps:
  "event_loop utcoffset data ps tab = Inr tab' \<Longrightarrow>
     (\<And>q e. q \<in> set ps \<Longrightarrow> event_entry utcoffset data q = Inr e \<Longrightarrow> timestamp e \<noteq> t) \<Longrightarrow>
     map_of tab' t = map_of tab t"
proof (induction ps arbitrary: tab)
  case Nil
  then show ?case by simp
next
  case (Cons q ps)
  from Cons.prems(1) obtain e where e: "event_entry utcoffset data q = Inr e"
    and l: "event_loop utcoffset data ps (AList.update (timestamp e) e tab) = Inr tab'"
    by (auto split: sum.splits)
  have "map_of tab' t = map_of (AList.update (timestamp e) e tab) t"
    using l Cons.prems(2) by (intro Cons.IH) auto
  moreover have "timestamp e \<noteq> t" using Cons.prems(2) [of q e] e by simp
  ultimately show ?case by (simp add: update_conv')
qed

lemma event_loop_last_write:
  "event_loop utcoffset data (ps1 @ p # ps2) tab = Inr tab' \<Longrightarrow> event_entry utcoffset data p = Inr e \<Longrightarrow>
     (\<And>q e'. q \<in> set ps2 \<Longrightarrow> event_entry utcoffset data q = Inr e' \<Longrightarrow> timestamp e' \<noteq> timestamp e) \<Longrightarrow>
     map_of tab' (timestamp e) = Some e"
proof (induction ps1 arbitrary: tab)
  case Nil
  then have "event_loop utcoffset data ps2 (AList.update (timestamp e) e tab) = Inr tab'" by simp
  then have "map_of tab' (timestamp e) = map_of (AList.update (timestamp e) e tab) (timestamp e)"
    using Nil.prems(3) by (rule event_loop_keeps)
  then show ?case by (simp add: update_conv')
next
  case (Cons q ps1)
  from Cons.prems(1) obtain e' where
    "event_loop utcoffset data (ps1 @ p # ps2) (AList.update (timestamp e') e' tab) = Inr tab'"
    by (auto split: sum.splits)
  then show ?case using Cons.prems(2,3) by (rule Cons.IH)
qed

lemma range_step_5: "range_step (5 * m) 5 = map (\<lambda>k. 5 * k) [0..<m]"
proof -
  have "sorted (map (\<lambda>k. 5 * k) [0..<m])"
    by (simp add: sorted_map sorted_wrt_iff_nth_less)
  moreover have "distinct (map (\<lambda>k. 5 * k) [0..<m])"
    by (simp add: distinct_map inj_on_def)
  moreover have "set (filter (\<lambda>p. p mod 5 = 0) [0..<5 * m]) = set (map (\<lambda>k. 5 * k) [0..<m])"
    by (auto simp add: image_iff)
  moreover have "sorted (filter (\<lambda>p. p mod 5 = 0) [0..<5 * m])"
    by (rule sorted_wrt_filter) simp
  ultimately show ?thesis
    unfolding range_step_def
    by (intro sorted_distinct_set_unique) simp_all
qed

lemma upt_split: "k < m \<Longrightarrow> [0..<m] = [0..<k] @ k # [Suc k..<m]"
  using upt_add_eq_append [of 0 k "m - k"] by (simp add: upt_conv_Cons)

lemma decode_event_table_wf:
  assumes "length data = 4 + 20 * m"
  shows "decode_value utcoffset EVENT_TABLE data =
     (case event_loop utcoffset data (map (\<lambda>k. 5 * k) [0..<m]) [] of
        Inl x \<Rightarrow> Inl x
      | Inr tab \<Rightarrow> Inr (PEventTable (fromtimestamp utcoffset (be_int (take 4 data))) tab))"
proof -
  have l: "4 \<le> length data" using assms by simp
  have "length data div 4 - 1 = 5 * m" using assms by simp
  moreover have "int (length data) mod 4 = 0" "(int (length data) - 4) mod 20 = 0"
    using assms by simp_all
  ultimately show ?thesis
    by (simp add: anchor_read_ok [OF l] range_step_5)
qed

lemma decode_event_table_Inr:
  assumes "decode_value utcoffset EVENT_TABLE data = Inr v"
  shows "length data = 4 + 20 * ((length data - 4) div 20)"
proof -
  have l: "4 \<le> length data"
    using assms anchor_read_short [of data] by (cases "length data < 4") simp_all
  have "(int (length data) - 4) mod 20 = 0"
    using assms by (simp add: anchor_read_ok [OF l] split: if_splits)
  then have "int (length data - 4) mod 20 = 0" using l by (simp add: of_nat_diff)
  then have "int ((length data - 4) mod 20) = 0" by (simp add: zmod_int)
  then have "(length data - 4) mod 20 = 0" by simp
  then have "20 * ((length data - 4) div 20) = length data - 4"
    by (simp add: mod_0_imp_dvd)
  then show ?thesis using l by linarith
qed

lemma entry_timestamp:
  "4 + 20 * k + 20 \<le> length data \<Longrightarrow> event_entry utcoffset data (5 * k) = Inr e \<Longrightarrow>
     timestamp e = fromtimestamp utcoffset (stride_field data k 4)"
  by (auto simp add: event_entry_stride split: sum.splits if_splits)

lemma stride_entry_in_table:
  assumes len: "length data = 4 + 20 * m"
    and loop: "event_loop utcoffset data (map (\<lambda>k. 5 * k) [0..<m]) [] = Inr tab"
    and k: "k < m"
    and e: "event_entry utcoffset data (5 * k) = Inr e"
    and last: "\<And>j. k < j \<Longrightarrow> j < m \<Longrightarrow> fromtimestamp utcoffset (stride_field data j 4)
      \<noteq> fromtimestamp utcoffset (stride_field data k 4)"
  shows "map_of tab (timestamp e) = Some e"
proof -
  have c: "4 + 20 * j + 20 \<le> length data" if "j < m" for j
    using that len by simp
  have sp: "map (\<lambda>k. 5 * k) [0..<m] =
      map (\<lambda>k. 5 * k) [0..<k] @ 5 * k # map (\<lambda>k. 5 * k) [Suc k..<m]"
    using upt_split [OF k] by simp
  have "timestamp e' \<noteq> timestamp e"
    if "q \<in> set (map (\<lambda>k. 5 * k) [Suc k..<m])" "event_entry utcoffset data q = Inr e'" for q e'
  proof -
    from that(1) obtain j where j: "q = 5 * j" "k < j" "j < m" by auto
    have "timestamp e' = fromtimestamp utcoffset (stride_field data j 4)"
      using that(2) c [OF j(3)] unfolding j(1) by (intro entry_timestamp)
    moreover have "timestamp e = fromtimestamp utcoffset (stride_field data k 4)"
      using e c [OF k] by (intro entry_timestamp)
    ultimately show ?thesis using last [OF j(2,3)] by simp
  qed
  then show ?thesis
    using loop e unfolding sp by (intro event_loop_last_write)
qed



text \<open>The type field: its value is below 256 exactly when its upper three bytes are zero.\<close>

lemma be_int_4:
  "be_int [a, b, c, d] = ((uint a * 256 + uint b) * 256 + uint c) * 256 + uint d"
  by (simp add: be_int_def)

lemma be_int_4_small:
  assumes "length bs = 4" "be_int bs < 256"
  shows "bs ! 0 = 0 \<and> bs ! 1 = 0 \<and> bs ! 2 = 0 \<and> be_int bs = uint (bs ! 3)"
proof -
  from assms(1) obtain a b c d where bs: "bs = [a, b, c, d]"
    by (auto simp add: length_Suc_conv eval_nat_numeral)
  have n: "0 \<le> uint a" "0 \<le> uint b" "0 \<le> uint c" "0 \<le> uint d" by simp_all
  have "uint a * 16777216 + uint b * 65536 + uint c * 256 + uint d < 256"
    using assms(2) unfolding bs be_int_4 by (simp add: algebra_simps)
  then have "uint a = 0 \<and> uint b = 0 \<and> uint c = 0"
    using n by linarith
  then show ?thesis by (simp add: bs be_int_4 uint_0_iff)
qed

lemma be_int_4_large:
  assumes "length bs = 4" "bs ! 0 \<noteq> 0 \<or> bs ! 1 \<noteq> 0 \<or> bs ! 2 \<noteq> 0"
  shows "256 \<le> be_int bs"
  using be_int_4_small [OF assms(1)] assms(2) by fastforce

lemma stride_bytes:
  assumes "4 + 20 * k + 20 \<le> length data"
  shows "length (take 4 (drop (4 + 20 * k) data)) = 4"
    and "i < 4 \<Longrightarrow> take 4 (drop (4 + 20 * k) data) ! i = data ! (4 + 20 * k + i)"
  using assms by simp_all

lemma ascii_char_cases:
  "0 \<le> n \<Longrightarrow> ascii_char n =
     (if 256 \<le> n then Inl ValueError else if 128 \<le> n then Inl UnicodeDecodeError
      else Inr (char_of n))"
  by (simp add: ascii_char_def)

lemma entry_type_ok:
  assumes c: "4 + 20 * k + 20 \<le> length data" and e: "event_entry utcoffset data (5 * k) = Inr e"
  shows "data ! (4 + 20 * k) = 0 \<and> data ! (4 + 20 * k + 1) = 0 \<and> data ! (4 + 20 * k + 2) = 0
     \<and> uint (data ! (4 + 20 * k + 3)) < 128
     \<and> entry_type e = char_of (uint (data ! (4 + 20 * k + 3)))"
proof -
  let ?f = "stride_field data k 0"
  have nn: "0 \<le> ?f" by (simp add: stride_field_def be_int_nonneg)
  have lt: "?f < 128" and ty: "entry_type e = char_of ?f"
    using e unfolding event_entry_stride [OF c] ascii_char_cases [OF nn]
    by (auto split: if_splits)
  have "be_int (take 4 (drop (4 + 20 * k) data)) < 256"
    using lt by (simp add: stride_field_def)
  from be_int_4_small [OF stride_bytes(1) [OF c] this]
  have "data ! (4 + 20 * k) = 0 \<and> data ! (4 + 20 * k + 1) = 0 \<and> data ! (4 + 20 * k + 2) = 0
     \<and> ?f = uint (data ! (4 + 20 * k + 3))"
    using c by (simp add: stride_field_def)
  then show ?thesis using lt ty by simp
qed

lemma entry_type_fails:
  assumes len: "length data = 4 + 20 * m" and k: "k < m"
    and before: "\<And>j. j < k \<Longrightarrow> stride_field data j 0 < 128"
    and bad: "128 \<le> stride_field data k 0"
  shows "decode_value utcoffset EVENT_TABLE data =
     Inl (if 256 \<le> stride_field data k 0 then ValueError else UnicodeDecodeError)"
proof -
  have c: "4 + 20 * j + 20 \<le> length data" if "j < m" for j
    using that len by simp
  have nn: "0 \<le> stride_field data j 0" for j
    by (simp add: stride_field_def be_int_nonneg)
  have ok: "\<exists>e. event_entry utcoffset data q = Inr e" if "q \<in> set (map (\<lambda>k. 5 * k) [0..<k])" for q
  proof -
    from that obtain j where j: "q = 5 * j" "j < k" by auto
    then have "j < m" using k by simp
    then have cj: "4 + 20 * j + 20 \<le> length data" by (rule c)
    show ?thesis
      unfolding j(1) event_entry_stride [OF cj] ascii_char_cases [OF nn]
      using before [OF j(2)] by simp
  qed
  have fail: "event_entry utcoffset data (5 * k) =
      Inl (if 256 \<le> stride_field data k 0 then ValueError else UnicodeDecodeError)"
    unfolding event_entry_stride [OF c [OF k]] ascii_char_cases [OF nn]
    using bad by simp
  have sp: "map (\<lambda>k. 5 * k) [0..<m] =
      map (\<lambda>k. 5 * k) [0..<k] @ 5 * k # map (\<lambda>k. 5 * k) [Suc k..<m]"
    using upt_split [OF k] by simp
  show ?thesis
    unfolding decode_event_table_wf [OF len] sp
    using event_loop_first_failure [of "map (\<lambda>k. 5 * k) [0..<k]" utcoffset data "5 * k", OF ok fail]
    by simp
qed

text \<open>
  Claim C4, as amended. The type field, bytes 0 to 3 of a stride, is decoded as a whole:
  the source passes its 32-bit value to \<^verbatim>\<open>bytes([...])\<close> and decodes the result as ASCII.
  \<^item> When \<open>decode_value\<close> succeeds on an \<open>EVENT_TABLE\<close> buffer, in every stride
    the upper three bytes of the field are zero and the low byte is below 128; the
    entry's type is the ASCII character with the code of the low byte, and the entry is
    in the returned dictionary unless the timestamp of a later stride has the same local
    date and time.
  \<^item> On a well-formed buffer, the first stride whose field is 128 or more makes the
    decoder fail: with \<^verbatim>\<open>ValueError\<close> from 256 on (a non-zero upper byte), with
    \<^verbatim>\<open>UnicodeDecodeError\<close> from 128 to 255.
\<close>

theorem entry_type_field:
  "(decode_value utcoffset EVENT_TABLE data = Inr v \<and> k < (length data - 4) div 20 \<longrightarrow>
      data ! (4 + 20 * k) = 0 \<and> data ! (4 + 20 * k + 1) = 0 \<and> data ! (4 + 20 * k + 2) = 0
      \<and> uint (data ! (4 + 20 * k + 3)) < 128
      \<and> (\<exists>ts tab e. v = PEventTable ts tab \<and> event_entry utcoffset data (5 * k) = Inr e
            \<and> entry_type e = char_of (uint (data ! (4 + 20 * k + 3)))
            \<and> ((\<forall>j. k < j \<and> j < (length data - 4) div 20 \<longrightarrow>
                    fromtimestamp utcoffset (stride_field data j 4)
                      \<noteq> fromtimestamp utcoffset (stride_field data k 4))
                 \<longrightarrow> map_of tab (timestamp e) = Some e)))
   \<and> (4 \<le> length data \<and> (length data - 4) mod 20 = 0 \<and> k < (length data - 4) div 20
       \<and> (\<forall>j < k. stride_field data j 0 < 128) \<and> 128 \<le> stride_field data k 0 \<longrightarrow>
      decode_value utcoffset EVENT_TABLE data =
        Inl (if 256 \<le> stride_field data k 0 then ValueError else UnicodeDecodeError))"
proof (intro conjI impI)
  assume a: "decode_value utcoffset EVENT_TABLE data = Inr v \<and> k < (length data - 4) div 20"
  define m where "m = (length data - 4) div 20"
  have len: "length data = 4 + 20 * m"
    using decode_event_table_Inr [of utcoffset data v] a by (simp add: m_def)
  have k: "k < m" using a by (simp add: m_def)
  have c: "4 + 20 * k + 20 \<le> length data" using len k by simp
  from a obtain tab where v: "v = PEventTable (fromtimestamp utcoffset (be_int (take 4 data))) tab"
    and loop: "event_loop utcoffset data (map (\<lambda>k. 5 * k) [0..<m]) [] = Inr tab"
    unfolding decode_event_table_wf [OF len] by (auto split: sum.splits)
  obtain e where e: "event_entry utcoffset data (5 * k) = Inr e"
    using event_loop_all_ok [OF loop, of "5 * k"] k by auto
  note t = entry_type_ok [OF c e]
  show "data ! (4 + 20 * k) = 0" "data ! (4 + 20 * k + 1) = 0" "data ! (4 + 20 * k + 2) = 0"
    "uint (data ! (4 + 20 * k + 3)) < 128"
    using t by simp_all
  have "map_of tab (timestamp e) = Some e"
    if "\<forall>j. k < j \<and> j < (length data - 4) div 20 \<longrightarrow>
          fromtimestamp utcoffset (stride_field data j 4)
            \<noteq> fromtimestamp utcoffset (stride_field data k 4)"
    using len loop k e that by (intro stride_entry_in_table) (auto simp add: m_def)
  then show "\<exists>ts tab e. v = PEventTable ts tab \<and> event_entry utcoffset data (5 * k) = Inr e
            \<and> entry_type e = char_of (uint (data ! (4 + 20 * k + 3)))
            \<and> ((\<forall>j. k < j \<and> j < (length data - 4) div 20 \<longrightarrow>
                    fromtimestamp utcoffset (stride_field data j 4)
                      \<noteq> fromtimestamp utcoffset (stride_field data k 4))
                 \<longrightarrow> map_of tab (timestamp e) = Some e)"
    using v e t by blast
next
  assume a: "4 \<le> length data \<and> (length data - 4) mod 20 = 0 \<and> k < (length data - 4) div 20
       \<and> (\<forall>j < k. stride_field data j 0 < 128) \<and> 128 \<le> stride_field data k 0"
  define m where "m = (length data - 4) div 20"
  have "20 * m = length data - 4" using a by (simp add: m_def mod_0_imp_dvd)
  then have len: "length data = 4 + 20 * m" using a by linarith
  show "decode_value utcoffset EVENT_TABLE data =
        Inl (if 256 \<le> stride_field data k 0 then ValueError else UnicodeDecodeError)"
    using a by (intro entry_type_fails [OF len]) (simp_all add: m_def)
qed

text \<open>
  Claim C4, as stated, fails on the field \<open>0x00000173\<close>: its low byte is the code of
  \<open>s\<close>, but the byte above it is not zero, and the decoder raises \<^verbatim>\<open>ValueError\<close>. The
  same buffer with that byte zero decodes to an entry of type \<open>s\<close>.
\<close>

theorem entry_type_counterexample:
  "decode_value utc EVENT_TABLE table_high = Inl ValueError
   \<and> decode_value utc EVENT_TABLE table_s =
       Inr (PEventTable 5 [(1000, \<lparr>timestamp = 1000, message_id = 5, entry_type = CHR ''s'',
              value_old = Some 10, value_new = Some 20, timestamp_end = None\<rparr>)])"
  by code_simp

text \<open>The decoder on the example buffers.\<close>

lemma decode_table_two:
  "decode_value utc EVENT_TABLE table_two =
     Inr (PEventTable 5
       [(1000, \<lparr>timestamp = 1000, message_id = 5, entry_type = CHR ''s'',
            value_old = Some 10, value_new = Some 20, timestamp_end = None\<rparr>),
        (2000, \<lparr>timestamp = 2000, message_id = 20, entry_type = CHR ''c'',
            value_old = None, value_new = None, timestamp_end = Some 10\<rparr>)])"
  by code_simp

lemma entry_table_two:
  "event_entry utc table_two (5 * 0) =
     Inr \<lparr>timestamp = 1000, message_id = 5, entry_type = CHR ''s'',
          value_old = Some 10, value_new = Some 20, timestamp_end = None\<rparr>"
  "event_entry utc table_two (5 * 1) =
     Inr \<lparr>timestamp = 2000, message_id = 20, entry_type = CHR ''c'',
          value_old = None, value_new = None, timestamp_end = Some 10\<rparr>"
  by code_simp+

lemma table_two_strides:
  "(length table_two - 4) div 20 = 2"
  "stride_field table_two 0 4 = 1000" "stride_field table_two 1 4 = 2000"
  by (simp_all add: table_two_def stride_field_def be_int_def)

lemma table_two_later:
  "0 < j \<and> j < (2::nat) \<longrightarrow>
     fromtimestamp utc (stride_field table_two j 4) \<noteq> fromtimestamp utc 1000"
proof
  assume "0 < j \<and> j < 2"
  then have "j = 1" by simp
  then show "fromtimestamp utc (stride_field table_two j 4) \<noteq> fromtimestamp utc 1000"
    using table_two_strides(3) by (simp add: fromtimestamp_def utc_def)
qed





lemma table_two_high_strides:
  "4 \<le> length table_two_high" "(length table_two_high - 4) mod 20 = 0"
  "(length table_two_high - 4) div 20 = 2"
  "stride_field table_two_high 0 0 = 115" "stride_field table_two_high 1 0 = 371"
  by (simp_all add: table_two_high_def stride_field_def be_int_def)

theorem entry_type_field_witness:
  "(\<exists>ts tab e. decode_value utc EVENT_TABLE table_two = Inr (PEventTable ts tab)
      \<and> map_of tab 1000 = Some e \<and> entry_type e = CHR ''s'')
   \<and> decode_value utc EVENT_TABLE table_two_high = Inl ValueError
   \<and> decode_value utc EVENT_TABLE table_x80 = Inl UnicodeDecodeError"
proof -
  have k: "0 < (length table_two - 4) div 20"
    by (simp add: table_two_strides)
  have a: "\<exists>ts tab e. decode_value utc EVENT_TABLE table_two = Inr (PEventTable ts tab)
      \<and> map_of tab 1000 = Some e \<and> entry_type e = CHR ''s''"
    using entry_type_field [of utc table_two _ 0, THEN conjunct1, rule_format,
        OF conjI [OF decode_table_two k]] table_two_later
    unfolding entry_table_two decode_table_two table_two_strides
    by (auto simp add: fromtimestamp_def utc_def)
  have h: "4 \<le> length table_two_high \<and> (length table_two_high - 4) mod 20 = 0
      \<and> 1 < (length table_two_high - 4) div 20
      \<and> (\<forall>j < 1. stride_field table_two_high j 0 < 128)
      \<and> 128 \<le> stride_field table_two_high 1 0"
    using table_two_high_strides(5) by (simp add: table_two_high_strides(1-4))
  have b: "decode_value utc EVENT_TABLE table_two_high = Inl ValueError"
    using entry_type_field [of utc table_two_high "PBool False" 1, THEN conjunct2, rule_format, OF h]
    unfolding table_two_high_strides(5) by (simp del: decode_value.simps)
  have g: "4 \<le> length table_x80 \<and> (length table_x80 - 4) mod 20 = 0
      \<and> 0 < (length table_x80 - 4) div 20
      \<and> (\<forall>j < 0. stride_field table_x80 j 0 < 128)
      \<and> 128 \<le> stride_field table_x80 0 0"
    by (simp add: table_x80_def stride_field_def be_int_def)
  have f: "stride_field table_x80 0 0 = 128"
    by (simp add: stride_field_def table_x80_def be_int_def)
  have c: "decode_value utc EVENT_TABLE table_x80 = Inl UnicodeDecodeError"
    using entry_type_field [of utc table_x80 "PBool False" 0, THEN conjunct2, rule_format, OF g]
    unfolding f by (simp del: decode_value.simps)
  show ?thesis using a b c by simp
qed

end
